theory Spec2Isabelle
  imports Main
begin

section \<open>Golf Solitaire: the game engine of \<^verbatim>\<open>solitaire.py\<close>\<close>

subsection \<open>Cards and the deck\<close>

text \<open>
  Modelled from the spec: the module \<^verbatim>\<open>cards\<close> (classes \<^verbatim>\<open>Card\<close> and \<^verbatim>\<open>Deck\<close>) is
  imported by \<^verbatim>\<open>solitaire.py\<close> but is not part of the sources. The spec describes a card as
  an immutable value with a suit (one of four) and a rank (an integer, or a sentinel for
  "no rank", Python's \<^verbatim>\<open>None\<close>), two cards being equal iff suit and rank match. The record
  below has exactly these two fields, so HOL equality on it is the spec's card equality.
\<close>

datatype Suit = Clubs | Diamonds | Hearts | Spades

record Card =
  suit :: Suit
  rank :: "int option"

datatype error = IndexError | EmptyDeck

text \<open>
  Modelled from the spec: \<^verbatim>\<open>Deck.is_empty\<close> and \<^verbatim>\<open>Deck.deal_card\<close> are not part of the
  sources. The deck is kept as the list of its cards in the order in which \<^verbatim>\<open>deal_card\<close>
  will hand them out (whichever end of its storage the real deck pops from), so dealing
  removes and returns the head. Dealing from an empty deck is a fault.
\<close>

definition is_empty :: "Card list \<Rightarrow> bool" where
  "is_empty d = (d = [])"

definition deal_card :: "Card list \<Rightarrow> error + (Card \<times> Card list)" where
  "deal_card d = (case d of [] \<Rightarrow> Inl EmptyDeck | c # rest \<Rightarrow> Inr (c, rest))"

subsection \<open>The engine state\<close>

text \<open>
  The instance attributes of class \<^verbatim>\<open>Solitaire\<close>. A column of the tableau, the waste and
  the stock are Python lists whose last element is the exposed (topmost) card. Every column
  is a list object of its own, created by \<^verbatim>\<open>column = []\<close> in the constructor, so the lists
  do not alias and each is a value here.
\<close>

record Solitaire =
  deck :: "Card list"
  tableau :: "Card list list"
  waste :: "Card list"
  stock :: "Card list"

text \<open>The class attributes \<^verbatim>\<open>Solitaire.columns\<close> and \<^verbatim>\<open>Solitaire.cards_in_column\<close>.\<close>

definition columns :: nat where
  "columns = 7"

definition cards_in_column :: nat where
  "cards_in_column = 5"

text \<open>
  A method call either raises (\<open>Inl\<close>) or returns a value together with the state of the
  object after the call (\<open>Inr\<close>).
\<close>

type_synonym 'a result = "error + ('a \<times> Solitaire)"

subsection \<open>Python list primitives\<close>

text \<open>
  \<^verbatim>\<open>xs[i]\<close> for an integer \<^verbatim>\<open>i\<close>: a negative index counts from the end, and an index
  outside \<open>-len(xs) .. len(xs) - 1\<close> raises \<^verbatim>\<open>IndexError\<close>. The function returns the
  position that is read.
\<close>

definition py_index :: "'a list \<Rightarrow> int \<Rightarrow> error + nat" where
  "py_index xs i =
     (if i < 0 then
        (if - int (length xs) \<le> i then Inr (nat (int (length xs) + i)) else Inl IndexError)
      else
        (if i < int (length xs) then Inr (nat i) else Inl IndexError))"

text \<open>\<^verbatim>\<open>xs.pop()\<close>: removes and returns the last element, \<^verbatim>\<open>IndexError\<close> on an empty list.\<close>

definition pop :: "'a list \<Rightarrow> error + ('a \<times> 'a list)" where
  "pop xs = (if xs = [] then Inl IndexError else Inr (last xs, butlast xs))"

subsection \<open>The constructor\<close>

text \<open>
  The inner loop \<^verbatim>\<open>for cards in range(Solitaire.cards_in_column): column.append(deal_card())\<close>,
  by recursion on the number of iterations left; it threads the column and the deck.
\<close>

fun deal_column :: "nat \<Rightarrow> Card list \<Rightarrow> Card list \<Rightarrow> error + (Card list \<times> Card list)" where
  "deal_column 0 column d = Inr (column, d)"
| "deal_column (Suc n) column d =
     (case deal_card d of
        Inl e \<Rightarrow> Inl e
      | Inr (c, d') \<Rightarrow> deal_column n (column @ [c]) d')"

text \<open>
  The outer loop \<^verbatim>\<open>for col in range(Solitaire.columns)\<close>: a fresh column is filled and
  appended to the tableau.
\<close>

fun deal_tableau ::
  "nat \<Rightarrow> nat \<Rightarrow> Card list list \<Rightarrow> Card list \<Rightarrow> error + (Card list list \<times> Card list)" where
  "deal_tableau 0 cic tab d = Inr (tab, d)"
| "deal_tableau (Suc k) cic tab d =
     (case deal_column cic [] d of
        Inl e \<Rightarrow> Inl e
      | Inr (column, d') \<Rightarrow> deal_tableau k cic (tab @ [column]) d')"

text \<open>
  \<^verbatim>\<open>while not self.deck.is_empty(): self.stock.append(self.deck.deal_card())\<close>. The loop
  ends because every iteration shortens the deck.
\<close>

function fill_stock :: "Card list \<Rightarrow> Card list \<Rightarrow> error + (Card list \<times> Card list)" where
  "fill_stock stk d =
     (if \<not> is_empty d then
        (case deal_card d of
           Inl e \<Rightarrow> Inl e
         | Inr (c, d') \<Rightarrow> fill_stock (stk @ [c]) d')
      else Inr (stk, d))"
  by pat_completeness auto
termination
  by (relation "measure (\<lambda>(stk, d). length d)")
     (auto simp: deal_card_def is_empty_def split: list.splits)

declare fill_stock.simps [simp del]

text \<open>
  \<^verbatim>\<open>Solitaire.__init__\<close>. The argument is the deck as \<^verbatim>\<open>self.deck.shuffle_deck()\<close> leaves
  it: the shuffle is the only source of randomness, and every order is a possible outcome.
\<close>

definition init :: "Card list \<Rightarrow> error + Solitaire" where
  "init d =
     (case deal_tableau columns cards_in_column [] d of
        Inl e \<Rightarrow> Inl e
      | Inr (tab, d1) \<Rightarrow>
          (case deal_card d1 of
             Inl e \<Rightarrow> Inl e
           | Inr (c, d2) \<Rightarrow>
               (case fill_stock [] d2 of
                  Inl e \<Rightarrow> Inl e
                | Inr (stk, d3) \<Rightarrow>
                    Inr \<lparr>deck = d3, tableau = tab, waste = [] @ [c], stock = stk\<rparr>)))"

subsection \<open>Queries\<close>

text \<open>
  The loop of \<^verbatim>\<open>can_move\<close> over \<^verbatim>\<open>self.tableau\<close>, for a card whose rank \<open>r\<close> is not
  \<^verbatim>\<open>None\<close>. The first non-empty column whose last card equals the candidate decides;
  reading \<^verbatim>\<open>self.waste[-1]\<close> raises on an empty waste pile. A waste top without a rank
  compares unequal to every integer.
\<close>

fun can_move_scan :: "Card list list \<Rightarrow> Card \<Rightarrow> int \<Rightarrow> Card list \<Rightarrow> error + bool" where
  "can_move_scan [] c r w = Inr False"
| "can_move_scan (i # rest) c r w =
     (if length i > 0 then
        (if c = last i then
           (case py_index w (- 1) of
              Inl e \<Rightarrow> Inl e
            | Inr k \<Rightarrow> Inr (Some (r - 1) = rank (w ! k) \<or> Some (r + 1) = rank (w ! k)))
         else can_move_scan rest c r w)
      else can_move_scan rest c r w)"

definition can_move :: "Card \<Rightarrow> Solitaire \<Rightarrow> bool result" where
  "can_move c s =
     (case rank c of
        Some r \<Rightarrow>
          (case can_move_scan (tableau s) c r (waste s) of
             Inl e \<Rightarrow> Inl e
           | Inr b \<Rightarrow> Inr (b, s))
      | None \<Rightarrow> Inr (False, s))"

text \<open>The loop of \<^verbatim>\<open>has_won\<close>: the first non-empty column returns \<^verbatim>\<open>False\<close>.\<close>

fun has_won_scan :: "Card list list \<Rightarrow> bool" where
  "has_won_scan [] = True"
| "has_won_scan (i # rest) = (if length i \<noteq> 0 then False else has_won_scan rest)"

definition has_won :: "Solitaire \<Rightarrow> bool result" where
  "has_won s = Inr (has_won_scan (tableau s), s)"

text \<open>
  \<^verbatim>\<open>last_cards\<close>: the comprehension over the column indices. Every index it reads is
  below \<^verbatim>\<open>len(self.tableau)\<close> and \<^verbatim>\<open>[-1]\<close> is read on non-empty columns only, so no
  read can raise.
\<close>

definition last_cards :: "Solitaire \<Rightarrow> Card list result" where
  "last_cards s =
     Inr (map (\<lambda>i. last (tableau s ! i))
            (filter (\<lambda>i. length (tableau s ! i) \<noteq> 0) [0..<length (tableau s)]), s)"

text \<open>
  The comprehension \<^verbatim>\<open>[card for card in self.last_cards() if self.can_move(card)]\<close> of
  \<^verbatim>\<open>has_lost\<close>: one call of \<^verbatim>\<open>can_move\<close> per card, in order, stopping at the first raise.
\<close>

fun movable_cards :: "Card list \<Rightarrow> Solitaire \<Rightarrow> Card list result" where
  "movable_cards [] s = Inr ([], s)"
| "movable_cards (c # cs) s =
     (case can_move c s of
        Inl e \<Rightarrow> Inl e
      | Inr (b, s1) \<Rightarrow>
          (case movable_cards cs s1 of
             Inl e \<Rightarrow> Inl e
           | Inr (ms, s2) \<Rightarrow> Inr (if b then c # ms else ms, s2)))"

text \<open>
  \<^verbatim>\<open>has_lost\<close>: Python's \<^verbatim>\<open>and\<close> does not evaluate its right operand when the stock is
  not empty.
\<close>

definition has_lost :: "Solitaire \<Rightarrow> bool result" where
  "has_lost s =
     (if length (stock s) = 0 then
        (case last_cards s of
           Inl e \<Rightarrow> Inl e
         | Inr (cs, s1) \<Rightarrow>
             (case movable_cards cs s1 of
                Inl e \<Rightarrow> Inl e
              | Inr (ms, s2) \<Rightarrow> Inr (length ms = 0, s2)))
      else Inr (False, s))"

subsection \<open>Mutating operations\<close>

text \<open>
  \<^verbatim>\<open>move_card\<close>: \<^verbatim>\<open>self.tableau[col]\<close> is read with Python's indexing, the column is
  popped in place and the card appended to the waste.
\<close>

definition move_card :: "int \<Rightarrow> Solitaire \<Rightarrow> unit result" where
  "move_card col s =
     (case py_index (tableau s) col of
        Inl e \<Rightarrow> Inl e
      | Inr j \<Rightarrow>
          (if length (tableau s ! j) > 0 then
             (case pop (tableau s ! j) of
                Inl e \<Rightarrow> Inl e
              | Inr (c, column) \<Rightarrow>
                  Inr ((), s\<lparr>tableau := (tableau s)[j := column], waste := waste s @ [c]\<rparr>))
           else Inr ((), s)))"

text \<open>\<^verbatim>\<open>deal_from_stock\<close>: the last card of the stock goes on top of the waste.\<close>

definition deal_from_stock :: "Solitaire \<Rightarrow> unit result" where
  "deal_from_stock s =
     (if length (stock s) > 0 then
        (case pop (stock s) of
           Inl e \<Rightarrow> Inl e
         | Inr (c, stk) \<Rightarrow> Inr ((), s\<lparr>stock := stk, waste := waste s @ [c]\<rparr>))
      else Inr ((), s))"

subsection \<open>Sequences of calls and reachable states\<close>

text \<open>\<^verbatim>\<open>deal_from_stock\<close> called \<open>n\<close> times in a row on the same object.\<close>

fun deal_times :: "nat \<Rightarrow> Solitaire \<Rightarrow> unit result" where
  "deal_times 0 s = Inr ((), s)"
| "deal_times (Suc n) s =
     (case deal_from_stock s of
        Inl e \<Rightarrow> Inl e
      | Inr (u, s') \<Rightarrow> deal_times n s')"

text \<open>
  The states an engine built from the shuffled deck \<open>d\<close> can be in: the state the
  constructor returns, and every state a returning call of \<^verbatim>\<open>move_card\<close> or
  \<^verbatim>\<open>deal_from_stock\<close> leaves behind.
\<close>

inductive reachable :: "Card list \<Rightarrow> Solitaire \<Rightarrow> bool" for d :: "Card list" where
  after_init: "init d = Inr s \<Longrightarrow> reachable d s"
| after_move: "reachable d s \<Longrightarrow> move_card col s = Inr (u, s') \<Longrightarrow> reachable d s'"
| after_deal: "reachable d s \<Longrightarrow> deal_from_stock s = Inr (u, s') \<Longrightarrow> reachable d s'"

code_pred reachable .

text \<open>The number of cards in the tableau, the stock and the waste together.\<close>

definition total_cards :: "Solitaire \<Rightarrow> nat" where
  "total_cards s = sum_list (map length (tableau s)) + length (stock s) + length (waste s)"

subsection \<open>Concrete inputs\<close>

text \<open>A deck of 52 different cards, in suit-then-rank order, as one possible deal order.\<close>

definition sample_deck :: "Card list" where
  "sample_deck =
     concat (map (\<lambda>su. map (\<lambda>r. \<lparr>suit = su, rank = Some r\<rparr>) [1, 2, 3, 4, 5, 6, 7, 8, 9, 10, 11, 12, 13])
                 [Clubs, Diamonds, Hearts, Spades])"

text \<open>
  A small position: three columns, the middle one empty, a seven on the waste and two
  cards left in the stock.
\<close>

definition sample_state :: Solitaire where
  "sample_state =
     \<lparr>deck = [],
      tableau = [[\<lparr>suit = Hearts, rank = Some 2\<rparr>, \<lparr>suit = Spades, rank = Some 6\<rparr>],
                 [],
                 [\<lparr>suit = Clubs, rank = Some 13\<rparr>]],
      waste = [\<lparr>suit = Hearts, rank = Some 7\<rparr>],
      stock = [\<lparr>suit = Diamonds, rank = Some 1\<rparr>, \<lparr>suit = Clubs, rank = Some 9\<rparr>]\<rparr>"

text \<open>A finished position: every column and the stock are empty.\<close>

definition cleared_state :: Solitaire where
  "cleared_state =
     \<lparr>deck = [], tableau = [[], [], [], [], [], [], []],
      waste = [\<lparr>suit = Hearts, rank = Some 7\<rparr>], stock = []\<rparr>"

text \<open>Seven columns, only the last of them holding a card.\<close>

definition last_column_state :: Solitaire where
  "last_column_state =
     \<lparr>deck = [], tableau = [[], [], [], [], [], [], [\<lparr>suit = Spades, rank = Some 8\<rparr>]],
      waste = [\<lparr>suit = Hearts, rank = Some 7\<rparr>], stock = []\<rparr>"

text \<open>The stock is used up and neither exposed card is next to the seven on the waste.\<close>

definition stuck_state :: Solitaire where
  "stuck_state =
     \<lparr>deck = [],
      tableau = [[\<lparr>suit = Hearts, rank = Some 2\<rparr>], [\<lparr>suit = Clubs, rank = Some 13\<rparr>]],
      waste = [\<lparr>suit = Hearts, rank = Some 7\<rparr>],
      stock = []\<rparr>"

subsection \<open>Winning\<close>

lemma has_won_scan_iff: "has_won_scan t \<longleftrightarrow> (\<forall>i \<in> set t. i = [])"
  by (induction t) auto

text \<open>
  C7. In every state, whatever the stock and the waste hold, \<^verbatim>\<open>has_won\<close> raises nothing,
  returns true exactly when every tableau column is empty, and leaves the state as it was.
\<close>

theorem has_won_iff_tableau_empty:
  "has_won s = Inr ((\<forall>i \<in> set (tableau s). i = []), s)"
  by (simp add: has_won_def has_won_scan_iff)

theorem has_won_iff_tableau_empty_witness:
  "has_won cleared_state = Inr (True, cleared_state) \<and>
   has_won sample_state = Inr (False, sample_state)"
  using has_won_iff_tableau_empty [of cleared_state] has_won_iff_tableau_empty [of sample_state]
  by (simp add: cleared_state_def sample_state_def)

subsection \<open>Move validation\<close>

lemma py_index_last: "w \<noteq> [] \<Longrightarrow> py_index w (- 1) = Inr (length w - 1)"
  by (cases w) (auto simp: py_index_def Let_def)

lemma can_move_scan_eq:
  "w \<noteq> [] \<Longrightarrow>
   can_move_scan t c r w =
     Inr ((\<exists>i \<in> set t. i \<noteq> [] \<and> last i = c) \<and>
          (Some (r - 1) = rank (last w) \<or> Some (r + 1) = rank (last w)))"
  by (induction t) (auto simp: py_index_last last_conv_nth)

lemma adjacent_abs:
  "(Some (r - 1) = q \<or> Some (r + 1) = q) \<longleftrightarrow> (\<exists>x. q = Some x \<and> \<bar>r - x\<bar> = (1::int))"
  by (cases q) auto

lemma can_move_eq:
  assumes "waste s \<noteq> []"
  shows "can_move c s =
     Inr (rank c \<noteq> None \<and>
          (\<exists>i \<in> set (tableau s). i \<noteq> [] \<and> last i = c) \<and>
          (\<exists>r x. rank c = Some r \<and> rank (last (waste s)) = Some x \<and> \<bar>r - x\<bar> = 1), s)"
proof (cases "rank c")
  case None
  then show ?thesis by (simp add: can_move_def)
next
  case (Some r)
  then show ?thesis
    using assms by (auto simp: can_move_def can_move_scan_eq adjacent_abs)
qed

lemma no_wraparound:
  fixes r x :: int
  assumes "\<bar>r - x\<bar> = 1" "1 \<le> r" "r \<le> 13" "1 \<le> x" "x \<le> 13"
  shows "(r = 1 \<longrightarrow> x = 2) \<and> (r = 13 \<longrightarrow> x = 12) \<and> (x = 1 \<longrightarrow> r = 2) \<and> (x = 13 \<longrightarrow> r = 12)"
  using assms by arith

text \<open>
  C1. In a state whose waste pile is not empty, \<^verbatim>\<open>can_move\<close> raises nothing, leaves the
  state as it was, and returns true exactly when the card has a rank, is the last card of
  some non-empty column, and its rank differs from the rank of the waste top by exactly 1
  (a waste top without a rank is adjacent to nothing). Among the ranks 1 to 13 an ace is
  adjacent to a two only and a king to a queen only: there is no wraparound.
\<close>

theorem can_move_iff_exposed_and_adjacent:
  assumes "waste s \<noteq> []"
  shows "can_move c s =
           Inr (rank c \<noteq> None \<and>
                (\<exists>i \<in> set (tableau s). i \<noteq> [] \<and> last i = c) \<and>
                (\<exists>r x. rank c = Some r \<and> rank (last (waste s)) = Some x \<and> \<bar>r - x\<bar> = 1), s) \<and>
         (\<forall>r x. rank c = Some r \<and> rank (last (waste s)) = Some x \<and>
                 1 \<le> r \<and> r \<le> 13 \<and> 1 \<le> x \<and> x \<le> 13 \<and> can_move c s = Inr (True, s) \<longrightarrow>
              (r = 1 \<longrightarrow> x = 2) \<and> (r = 13 \<longrightarrow> x = 12) \<and>
              (x = 1 \<longrightarrow> r = 2) \<and> (x = 13 \<longrightarrow> r = 12))"
proof (rule conjI)
  show "can_move c s =
           Inr (rank c \<noteq> None \<and>
                (\<exists>i \<in> set (tableau s). i \<noteq> [] \<and> last i = c) \<and>
                (\<exists>r x. rank c = Some r \<and> rank (last (waste s)) = Some x \<and> \<bar>r - x\<bar> = 1), s)"
    by (rule can_move_eq [OF assms])
next
  show "\<forall>r x. rank c = Some r \<and> rank (last (waste s)) = Some x \<and>
                 1 \<le> r \<and> r \<le> 13 \<and> 1 \<le> x \<and> x \<le> 13 \<and> can_move c s = Inr (True, s) \<longrightarrow>
              (r = 1 \<longrightarrow> x = 2) \<and> (r = 13 \<longrightarrow> x = 12) \<and>
              (x = 1 \<longrightarrow> r = 2) \<and> (x = 13 \<longrightarrow> r = 12)"
  proof (intro allI impI)
    fix r x
    assume h: "rank c = Some r \<and> rank (last (waste s)) = Some x \<and>
                 1 \<le> r \<and> r \<le> 13 \<and> 1 \<le> x \<and> x \<le> 13 \<and> can_move c s = Inr (True, s)"
    then have "\<bar>r - x\<bar> = 1"
      by (auto simp: can_move_eq [OF assms])
    with h show "(r = 1 \<longrightarrow> x = 2) \<and> (r = 13 \<longrightarrow> x = 12) \<and>
              (x = 1 \<longrightarrow> r = 2) \<and> (x = 13 \<longrightarrow> r = 12)"
      by (intro no_wraparound) simp_all
  qed
qed

lemma sample_waste: "waste sample_state \<noteq> []"
  by (simp add: sample_state_def)

theorem can_move_iff_exposed_and_adjacent_witness:
  "waste sample_state \<noteq> [] \<and>
   can_move \<lparr>suit = Spades, rank = Some 6\<rparr> sample_state = Inr (True, sample_state) \<and>
   can_move \<lparr>suit = Hearts, rank = Some 2\<rparr> sample_state = Inr (False, sample_state) \<and>
   can_move \<lparr>suit = Clubs, rank = Some 13\<rparr> sample_state = Inr (False, sample_state)"
proof -
  note t = can_move_iff_exposed_and_adjacent [OF sample_waste, THEN conjunct1]
  have a: "waste sample_state = [\<lparr>suit = Hearts, rank = Some 7\<rparr>]"
    and b: "tableau sample_state = [[\<lparr>suit = Hearts, rank = Some 2\<rparr>, \<lparr>suit = Spades, rank = Some 6\<rparr>],
                 [],
                 [\<lparr>suit = Clubs, rank = Some 13\<rparr>]]"
    by (simp_all add: sample_state_def)
  show ?thesis
    unfolding t by (simp add: a b)
qed

subsection \<open>Move execution\<close>

lemma py_index_nonneg:
  "0 \<le> i \<Longrightarrow> i < int (length xs) \<Longrightarrow> py_index xs i = Inr (nat i)"
  by (simp add: py_index_def Let_def)

lemma py_index_negative:
  "i < 0 \<Longrightarrow> - int (length xs) \<le> i \<Longrightarrow> py_index xs i = Inr (nat (int (length xs) + i))"
  by (simp add: py_index_def Let_def)

lemma py_index_error_iff:
  "py_index xs i = Inl e \<longleftrightarrow> e = IndexError \<and> (int (length xs) \<le> i \<or> i < - int (length xs))"
  by (auto simp: py_index_def Let_def)

lemma move_card_at:
  "py_index (tableau s) col = Inr j \<Longrightarrow>
   move_card col s =
     Inr ((), if tableau s ! j = [] then s
              else s\<lparr>tableau := (tableau s)[j := butlast (tableau s ! j)],
                     waste := waste s @ [last (tableau s ! j)]\<rparr>)"
  by (simp add: move_card_def pop_def)

lemma move_card_error_iff:
  "move_card col s = Inl e \<longleftrightarrow> py_index (tableau s) col = Inl e"
  by (cases "py_index (tableau s) col") (simp_all add: move_card_def pop_def)

text \<open>
  C3. For a column index \<open>0 \<le> col < len(tableau)\<close>: on a non-empty column \<^verbatim>\<open>move_card\<close>
  returns, the column has lost exactly its last card, that card is the new last element
  (top) of the waste, and every other column, the stock and the deck are unchanged; on an
  empty column it returns and the whole state is unchanged.
\<close>

theorem move_card_moves_exposed_card:
  assumes "0 \<le> col" and "col < int (length (tableau s))"
  shows "(tableau s ! nat col \<noteq> [] \<longrightarrow>
            (\<exists>s'. move_card col s = Inr ((), s') \<and>
                  tableau s' ! nat col @ [last (tableau s ! nat col)] = tableau s ! nat col \<and>
                  waste s' = waste s @ [last (tableau s ! nat col)] \<and>
                  last (waste s') = last (tableau s ! nat col) \<and>
                  length (tableau s') = length (tableau s) \<and>
                  (\<forall>j < length (tableau s). j \<noteq> nat col \<longrightarrow> tableau s' ! j = tableau s ! j) \<and>
                  stock s' = stock s \<and> deck s' = deck s)) \<and>
         (tableau s ! nat col = [] \<longrightarrow> move_card col s = Inr ((), s))"
  using assms by (simp add: move_card_at [OF py_index_nonneg])

theorem move_card_moves_exposed_card_witness:
  "(0::int) \<le> 0 \<and> 0 < int (length (tableau sample_state)) \<and>
   (1::int) < int (length (tableau sample_state)) \<and>
   (\<exists>s'. move_card 0 sample_state = Inr ((), s') \<and>
         waste s' = [\<lparr>suit = Hearts, rank = Some 7\<rparr>, \<lparr>suit = Spades, rank = Some 6\<rparr>] \<and>
         tableau s' ! 0 = [\<lparr>suit = Hearts, rank = Some 2\<rparr>] \<and>
         stock s' = stock sample_state) \<and>
   move_card 1 sample_state = Inr ((), sample_state)"
proof -
  have l: "(0::int) \<le> 0" "0 < int (length (tableau sample_state))"
    "(0::int) \<le> 1" "(1::int) < int (length (tableau sample_state))"
    by (simp_all add: sample_state_def)
  have t: "tableau sample_state ! nat 0 =
             [\<lparr>suit = Hearts, rank = Some 2\<rparr>, \<lparr>suit = Spades, rank = Some 6\<rparr>]"
    "tableau sample_state ! nat 1 = []"
    "waste sample_state = [\<lparr>suit = Hearts, rank = Some 7\<rparr>]"
    by (simp_all add: sample_state_def)
  from move_card_moves_exposed_card [OF l(1,2)] move_card_moves_exposed_card [OF l(3,4)] l
  show ?thesis
    unfolding t by auto
qed

text \<open>
  C10. With \<^verbatim>\<open>columns\<close> columns in the tableau, \<^verbatim>\<open>move_card(col)\<close> raises \<^verbatim>\<open>IndexError\<close>
  exactly when \<open>col \<ge> columns\<close> or \<open>col < -columns\<close>, and raises nothing else. For
  \<open>-columns \<le> col \<le> -1\<close> it returns, and does what \<^verbatim>\<open>move_card(columns + col)\<close> does:
  with seven columns \<^verbatim>\<open>move_card(-1)\<close> acts on column 6.
\<close>

theorem move_card_index_error_iff:
  assumes "length (tableau s) = columns"
  shows "(move_card col s = Inl IndexError \<longleftrightarrow> col \<ge> int columns \<or> col < - int columns) \<and>
         (\<forall>e. move_card col s = Inl e \<longrightarrow> e = IndexError) \<and>
         (- int columns \<le> col \<and> col \<le> - 1 \<longrightarrow>
            (\<exists>s'. move_card col s = Inr ((), s')) \<and>
            move_card col s = move_card (int columns + col) s) \<and>
         (columns = 7 \<longrightarrow> move_card (- 1) s = move_card 6 s)"
proof -
  have a: "move_card col s = Inl IndexError \<longleftrightarrow> col \<ge> int columns \<or> col < - int columns"
    using assms by (simp add: move_card_error_iff py_index_error_iff)
  have b: "\<forall>e. move_card col s = Inl e \<longrightarrow> e = IndexError"
    by (simp add: move_card_error_iff py_index_error_iff)
  have c: "(\<exists>s'. move_card col s = Inr ((), s')) \<and> move_card col s = move_card (int columns + col) s"
    if "- int columns \<le> col \<and> col \<le> - 1"
  proof -
    have 1: "py_index (tableau s) col = Inr (nat (int columns + col))"
      using that assms py_index_negative [of col "tableau s"] by simp
    have 2: "py_index (tableau s) (int columns + col) = Inr (nat (int columns + col))"
      using that assms py_index_nonneg [of "int columns + col" "tableau s"] by simp
    show ?thesis
      by (simp add: move_card_at [OF 1] move_card_at [OF 2])
  qed
  have d: "move_card (- 1) s = move_card 6 s" if "columns = 7"
  proof -
    have 1: "py_index (tableau s) (- 1) = Inr 6"
      using that assms py_index_negative [of "- 1" "tableau s"] by simp
    have 2: "py_index (tableau s) 6 = Inr 6"
      using that assms py_index_nonneg [of 6 "tableau s"] by simp
    show ?thesis
      by (simp add: move_card_at [OF 1] move_card_at [OF 2])
  qed
  from a b c d show ?thesis by blast
qed

theorem move_card_index_error_iff_witness:
  "length (tableau last_column_state) = columns \<and>
   move_card 7 last_column_state = Inl IndexError \<and>
   move_card (- 8) last_column_state = Inl IndexError \<and>
   move_card (- 1) last_column_state = move_card 6 last_column_state \<and>
   move_card (- 1) last_column_state =
     Inr ((), last_column_state\<lparr>tableau := [[], [], [], [], [], [], []],
                                waste := [\<lparr>suit = Hearts, rank = Some 7\<rparr>,
                                          \<lparr>suit = Spades, rank = Some 8\<rparr>]\<rparr>)"
proof -
  have l: "length (tableau last_column_state) = columns"
    by (simp add: last_column_state_def columns_def)
  have m: "move_card 6 last_column_state =
     Inr ((), last_column_state\<lparr>tableau := [[], [], [], [], [], [], []],
                                waste := [\<lparr>suit = Hearts, rank = Some 7\<rparr>,
                                          \<lparr>suit = Spades, rank = Some 8\<rparr>]\<rparr>)"
    by (simp add: move_card_def py_index_def pop_def last_column_state_def)
  from move_card_index_error_iff [OF l, of 7] move_card_index_error_iff [OF l, of "- 8"]
    move_card_index_error_iff [OF l, of "- 1"] l m
  show ?thesis
    by (simp add: columns_def)
qed

subsection \<open>Dealing from the stock\<close>

lemma deal_from_stock_eq:
  "deal_from_stock s =
     Inr ((), if stock s = [] then s
              else s\<lparr>stock := butlast (stock s), waste := waste s @ [last (stock s)]\<rparr>)"
  by (simp add: deal_from_stock_def pop_def)

lemma take_butlast_le: "m \<le> length xs - 1 \<Longrightarrow> take m (butlast xs) = take m xs"
  by (cases "xs = []") (simp_all add: butlast_conv_take min_def)

lemma rev_drop_butlast:
  "xs \<noteq> [] \<Longrightarrow> m \<le> length xs - 1 \<Longrightarrow>
   last xs # rev (drop m (butlast xs)) = rev (drop m xs)"
proof -
  assume a: "xs \<noteq> []" and b: "m \<le> length xs - 1"
  have "drop m xs = drop m (butlast xs @ [last xs])"
    using a by simp
  also have "\<dots> = drop m (butlast xs) @ [last xs]"
    using b by simp
  finally show ?thesis by simp
qed

lemma deal_times_eq:
  "deal_times k s =
     Inr ((), s\<lparr>stock := take (length (stock s) - k) (stock s),
                waste := waste s @ rev (drop (length (stock s) - k) (stock s))\<rparr>)"
proof (induction k arbitrary: s)
  case 0
  show ?case by simp
next
  case (Suc k)
  show ?case
  proof (cases "stock s = []")
    case True
    then show ?thesis
      by (simp add: deal_from_stock_eq Suc.IH)
  next
    case False
    have l: "length (stock s) - 1 - k = length (stock s) - Suc k"
      by simp
    have m: "length (stock s) - Suc k \<le> length (stock s) - 1"
      by simp
    show ?thesis
      using False
      by (simp add: deal_from_stock_eq Suc.IH l take_butlast_le [OF m]
          rev_drop_butlast [OF False m, symmetric] del: rev_drop)
  qed
qed

text \<open>
  C6. A call of \<^verbatim>\<open>deal_from_stock\<close> on a non-empty stock returns, takes the last card
  off the stock and puts it on top of the waste, and leaves the tableau alone; on an empty
  stock it returns with the state unchanged. So after \<open>k \<le> n\<close> calls, \<open>n\<close> the size of
  the stock, the last \<open>k\<close> cards of the stock lie on the waste in the order dealt; after
  \<open>n\<close> calls the stock is empty and all its cards are on the waste; any number of further
  calls changes nothing.
\<close>

theorem deal_from_stock_exhausts_stock:
  "(stock s \<noteq> [] \<longrightarrow>
      (\<exists>s'. deal_from_stock s = Inr ((), s') \<and>
            stock s' @ [last (stock s)] = stock s \<and>
            waste s' = waste s @ [last (stock s)] \<and>
            last (waste s') = last (stock s) \<and>
            tableau s' = tableau s \<and> deck s' = deck s)) \<and>
   (stock s = [] \<longrightarrow> deal_from_stock s = Inr ((), s)) \<and>
   (\<forall>k \<le> length (stock s).
      deal_times k s =
        Inr ((), s\<lparr>stock := take (length (stock s) - k) (stock s),
                   waste := waste s @ rev (drop (length (stock s) - k) (stock s))\<rparr>)) \<and>
   deal_times (length (stock s)) s =
     Inr ((), s\<lparr>stock := [], waste := waste s @ rev (stock s)\<rparr>) \<and>
   (\<forall>m. deal_times (length (stock s) + m) s = deal_times (length (stock s)) s)"
  by (simp add: deal_from_stock_eq deal_times_eq)

theorem deal_from_stock_exhausts_stock_witness:
  "deal_times 2 sample_state =
     Inr ((), sample_state\<lparr>stock := [],
                           waste := [\<lparr>suit = Hearts, rank = Some 7\<rparr>,
                                     \<lparr>suit = Clubs, rank = Some 9\<rparr>,
                                     \<lparr>suit = Diamonds, rank = Some 1\<rparr>]\<rparr>) \<and>
   deal_times 5 sample_state = deal_times 2 sample_state"
proof -
  have l: "length (stock sample_state) = 2"
    and w: "waste sample_state = [\<lparr>suit = Hearts, rank = Some 7\<rparr>]"
    and k: "stock sample_state = [\<lparr>suit = Diamonds, rank = Some 1\<rparr>, \<lparr>suit = Clubs, rank = Some 9\<rparr>]"
    by (simp_all add: sample_state_def)
  note t = deal_from_stock_exhausts_stock [of sample_state, unfolded l]
  from t have a: "deal_times 2 sample_state =
      Inr ((), sample_state\<lparr>stock := [], waste := waste sample_state @ rev (stock sample_state)\<rparr>)"
    by blast
  from t have "\<forall>m. deal_times (2 + m) sample_state = deal_times 2 sample_state"
    by blast
  from this [rule_format, of 3] have b: "deal_times 5 sample_state = deal_times 2 sample_state"
    by simp
  from a b show ?thesis
    by (simp add: w k)
qed


subsection \<open>Losing\<close>

lemma last_cards_eq:
  "last_cards s = Inr (map last (filter (\<lambda>i. i \<noteq> []) (tableau s)), s)"
proof -
  have "map (\<lambda>i. last (tableau s ! i)) (filter (\<lambda>i. length (tableau s ! i) \<noteq> 0) [0..<length (tableau s)])
        = map last (filter (\<lambda>i. i \<noteq> []) (map (\<lambda>i. tableau s ! i) [0..<length (tableau s)]))"
    by (simp add: filter_map comp_def)
  then show ?thesis
    by (simp add: last_cards_def map_nth)
qed

lemma movable_cards_eq:
  "waste s \<noteq> [] \<Longrightarrow>
   movable_cards cs s = Inr (filter (\<lambda>c. can_move c s = Inr (True, s)) cs, s)"
  by (induction cs) (simp_all add: can_move_eq)

text \<open>
  C4. With a non-empty stock \<^verbatim>\<open>has_lost\<close> returns false, whether or not a card can be
  moved. In an engine state, whose waste pile is never empty, \<^verbatim>\<open>has_lost\<close> returns true
  exactly when the stock is empty and \<^verbatim>\<open>can_move\<close> is true of none of the cards that
  \<^verbatim>\<open>last_cards\<close> returns, the last cards of the non-empty columns in column order.
  Neither call changes the state.
\<close>

theorem has_lost_iff_stock_empty_and_no_move:
  "(stock s \<noteq> [] \<longrightarrow> has_lost s = Inr (False, s)) \<and>
   (waste s \<noteq> [] \<longrightarrow>
      (\<exists>cs. last_cards s = Inr (cs, s) \<and>
            cs = map last (filter (\<lambda>i. i \<noteq> []) (tableau s)) \<and>
            has_lost s =
              Inr (stock s = [] \<and> (\<forall>c \<in> set cs. can_move c s \<noteq> Inr (True, s)), s)))"
  by (auto simp: has_lost_def last_cards_eq movable_cards_eq filter_empty_conv)


theorem has_lost_iff_stock_empty_and_no_move_witness:
  "stock sample_state \<noteq> [] \<and> has_lost sample_state = Inr (False, sample_state) \<and>
   waste stuck_state \<noteq> [] \<and> has_lost stuck_state = Inr (True, stuck_state) \<and>
   waste last_column_state \<noteq> [] \<and> has_lost last_column_state = Inr (False, last_column_state)"
proof -
  have a: "stock sample_state \<noteq> []"
    by (simp add: sample_state_def)
  have b: "waste stuck_state \<noteq> []" "stock stuck_state = []"
    "map last (filter (\<lambda>i. i \<noteq> []) (tableau stuck_state)) =
       [\<lparr>suit = Hearts, rank = Some 2\<rparr>, \<lparr>suit = Clubs, rank = Some 13\<rparr>]"
    "can_move \<lparr>suit = Hearts, rank = Some 2\<rparr> stuck_state = Inr (False, stuck_state)"
    "can_move \<lparr>suit = Clubs, rank = Some 13\<rparr> stuck_state = Inr (False, stuck_state)"
    by (simp_all add: stuck_state_def can_move_def py_index_def)
  have c: "waste last_column_state \<noteq> []" "stock last_column_state = []"
    "map last (filter (\<lambda>i. i \<noteq> []) (tableau last_column_state)) =
       [\<lparr>suit = Spades, rank = Some 8\<rparr>]"
    "can_move \<lparr>suit = Spades, rank = Some 8\<rparr> last_column_state = Inr (True, last_column_state)"
    by (simp_all add: last_column_state_def can_move_def py_index_def)
  from has_lost_iff_stock_empty_and_no_move [of sample_state] a
  have 1: "has_lost sample_state = Inr (False, sample_state)"
    by blast
  from has_lost_iff_stock_empty_and_no_move [of stuck_state] b
  have 2: "has_lost stuck_state = Inr (True, stuck_state)"
    by simp
  from has_lost_iff_stock_empty_and_no_move [of last_column_state] c
  have 3: "has_lost last_column_state = Inr (False, last_column_state)"
    by simp
  from 1 2 3 a b(1) c(1) show ?thesis by simp
qed


text \<open>
  C9. When every column and the stock are empty, \<^verbatim>\<open>last_cards\<close> returns the empty list
  and \<^verbatim>\<open>has_won\<close> and \<^verbatim>\<open>has_lost\<close> both return true: the two predicates do not
  exclude each other.
\<close>

theorem has_won_and_has_lost_together:
  assumes "\<forall>i \<in> set (tableau s). i = []" and "stock s = []"
  shows "has_won s = Inr (True, s) \<and> has_lost s = Inr (True, s) \<and> last_cards s = Inr ([], s)"
proof -
  have "filter (\<lambda>i. i \<noteq> []) (tableau s) = []"
    using assms(1) by (simp add: filter_empty_conv)
  then have l: "last_cards s = Inr ([], s)"
    by (simp add: last_cards_eq)
  have w: "has_won s = Inr (True, s)"
    using assms(1) by (simp add: has_won_def has_won_scan_iff)
  have "has_lost s = Inr (True, s)"
    using assms(2) by (simp add: has_lost_def l)
  with l w show ?thesis by simp
qed

theorem has_won_and_has_lost_together_witness:
  "tableau cleared_state = [[], [], [], [], [], [], []] \<and> stock cleared_state = [] \<and>
   has_won cleared_state = Inr (True, cleared_state) \<and>
   has_lost cleared_state = Inr (True, cleared_state)"
proof -
  have a: "\<forall>i \<in> set (tableau cleared_state). i = []" and b: "stock cleared_state = []"
    by (simp_all add: cleared_state_def)
  have c: "tableau cleared_state = [[], [], [], [], [], [], []]"
    by (simp add: cleared_state_def)
  from has_won_and_has_lost_together [OF a b] b c show ?thesis
    by simp
qed

subsection \<open>Setup\<close>

lemma deal_column_eq:
  "n \<le> length d \<Longrightarrow> deal_column n column d = Inr (column @ take n d, drop n d)"
proof (induction n arbitrary: column d)
  case 0
  show ?case by simp
next
  case (Suc n)
  then obtain c rest where d: "d = c # rest"
    by (cases d) auto
  with Suc show ?case
    by (simp add: deal_card_def)
qed

lemma deal_tableau_eq:
  "k * cic \<le> length d \<Longrightarrow>
   deal_tableau k cic tab d =
     Inr (tab @ map (\<lambda>i. take cic (drop (i * cic) d)) [0..<k], drop (k * cic) d)"
proof (induction k arbitrary: tab d)
  case 0
  show ?case by simp
next
  case (Suc k)
  have c: "cic \<le> length d" and r: "k * cic \<le> length (drop cic d)"
    using Suc.prems by simp_all
  have "deal_tableau (Suc k) cic tab d = deal_tableau k cic (tab @ [take cic d]) (drop cic d)"
    by (simp add: deal_column_eq [OF c])
  also have "\<dots> = Inr ((tab @ [take cic d]) @
                       map (\<lambda>i. take cic (drop (i * cic) (drop cic d))) [0..<k],
                     drop (k * cic) (drop cic d))"
    by (rule Suc.IH [OF r])
  also have "\<dots> = Inr (tab @ map (\<lambda>i. take cic (drop (i * cic) d)) [0..<Suc k],
                     drop (Suc k * cic) d)"
    by (simp add: map_upt_Suc add.commute del: upt_Suc)
  finally show ?case .
qed

lemma fill_stock_eq: "fill_stock stk d = Inr (stk @ d, [])"
proof (induction d arbitrary: stk)
  case Nil
  show ?case
    by (simp add: fill_stock.simps [of stk "[]"] is_empty_def)
next
  case (Cons c d)
  show ?case
    by (simp add: fill_stock.simps [of stk "c # d"] is_empty_def deal_card_def Cons.IH)
qed

lemma deal_card_drop:
  "n < length d \<Longrightarrow> deal_card (drop n d) = Inr (d ! n, drop (Suc n) d)"
  by (simp add: deal_card_def Cons_nth_drop_Suc [symmetric])

lemma init_eq:
  assumes "columns * cards_in_column < length d"
  shows "init d =
     Inr \<lparr>deck = [],
          tableau = map (\<lambda>i. take cards_in_column (drop (i * cards_in_column) d)) [0..<columns],
          waste = [d ! (columns * cards_in_column)],
          stock = drop (Suc (columns * cards_in_column)) d\<rparr>"
proof -
  have l: "columns * cards_in_column \<le> length d"
    using assms by simp
  show ?thesis
    by (simp add: init_def deal_tableau_eq [OF l] deal_card_drop [OF assms] fill_stock_eq)
qed

lemma concat_chunks:
  "concat (map (\<lambda>i. take c (drop (i * c) d)) [0..<k]) = take (k * c) d"
proof (induction k)
  case 0
  show ?case by simp
next
  case (Suc k)
  have "take (Suc k * c) d = take (k * c + c) d"
    by (simp add: add.commute)
  also have "\<dots> = take (k * c) d @ take c (drop (k * c) d)"
    by (rule take_add)
  finally show ?case
    by (simp add: Suc.IH)
qed

lemma init_conserves:
  assumes "init d = Inr s" and "columns * cards_in_column < length d"
  shows "concat (tableau s) @ waste s @ stock s = d"
proof -
  let ?n = "columns * cards_in_column"
  have s: "s = \<lparr>deck = [],
          tableau = map (\<lambda>i. take cards_in_column (drop (i * cards_in_column) d)) [0..<columns],
          waste = [d ! ?n], stock = drop (Suc ?n) d\<rparr>"
    using assms(1) by (simp add: init_eq [OF assms(2)])
  have "take ?n d @ [d ! ?n] @ drop (Suc ?n) d = d"
    using assms(2) by (simp add: Cons_nth_drop_Suc)
  then show ?thesis
    by (simp add: s concat_chunks)
qed

lemma columns_cards [simp]: "columns * cards_in_column = 35"
  by (simp add: columns_def cards_in_column_def)

lemma chunk_last:
  assumes "i * c + c \<le> length d" and "0 < c"
  shows "last (take c (drop (i * c) d)) = d ! (i * c + (c - 1))"
proof -
  have l: "length (take c (drop (i * c) d)) = c"
    using assms(1) by simp
  then have "take c (drop (i * c) d) \<noteq> []"
    using assms(2) by auto
  then have "last (take c (drop (i * c) d)) =
               take c (drop (i * c) d) ! (length (take c (drop (i * c) d)) - 1)"
    by (rule last_conv_nth)
  also have "\<dots> = take c (drop (i * c) d) ! (c - 1)"
    unfolding l ..
  also have "\<dots> = d ! (i * c + (c - 1))"
    using assms by simp
  finally show ?thesis .
qed

text \<open>
  C5. From a deck of 52 different cards the constructor returns a state with 7 columns,
  column \<open>i\<close> holding the cards dealt 5i-th to (5i+4)-th in that order, so that its last
  card is the last one dealt to it; the waste holds the single card dealt next and the
  stock the remaining 16. Tableau, waste and stock together are the deck, so no card
  occurs twice, and the deck is empty afterwards.
\<close>

theorem init_setup_shape:
  assumes "length d = 52" and "distinct d"
  shows "\<exists>s. init d = Inr s \<and>
           length (tableau s) = 7 \<and>
           (\<forall>i < 7. tableau s ! i = take 5 (drop (i * 5) d) \<and>
                    length (tableau s ! i) = 5 \<and>
                    last (tableau s ! i) = d ! (i * 5 + 4)) \<and>
           waste s = [d ! 35] \<and> length (waste s) = 1 \<and>
           stock s = drop 36 d \<and> length (stock s) = 16 \<and>
           concat (tableau s) @ waste s @ stock s = d \<and>
           distinct (concat (tableau s) @ waste s @ stock s) \<and>
           deck s = []"
proof -
  let ?s = "\<lparr>deck = [],
          tableau = map (\<lambda>i. take cards_in_column (drop (i * cards_in_column) d)) [0..<columns],
          waste = [d ! (columns * cards_in_column)],
          stock = drop (Suc (columns * cards_in_column)) d\<rparr>"
  have n: "columns * cards_in_column < length d"
    using assms(1) by simp
  have i: "init d = Inr ?s"
    by (rule init_eq [OF n])
  have c: "concat (tableau ?s) @ waste ?s @ stock ?s = d"
    by (rule init_conserves [OF i n])
  have t: "\<forall>i < 7. tableau ?s ! i = take 5 (drop (i * 5) d) \<and>
                    length (tableau ?s ! i) = 5 \<and>
                    last (tableau ?s ! i) = d ! (i * 5 + 4)"
  proof (intro allI impI)
    fix i :: nat
    assume "i < 7"
    then have b: "i * 5 + 5 \<le> length d"
      using assms(1) by simp
    have "last (take 5 (drop (i * 5) d)) = d ! (i * 5 + (5 - 1))"
      by (rule chunk_last [OF b]) simp
    with \<open>i < 7\<close> b show "tableau ?s ! i = take 5 (drop (i * 5) d) \<and>
                    length (tableau ?s ! i) = 5 \<and>
                    last (tableau ?s ! i) = d ! (i * 5 + 4)"
      by (simp add: columns_def cards_in_column_def)
  qed
  have "length (tableau ?s) = 7" "waste ?s = [d ! 35]" "length (waste ?s) = 1"
    "stock ?s = drop 36 d" "length (stock ?s) = 16" "deck ?s = []"
    using assms(1) by (simp_all add: columns_def cards_in_column_def)
  with i c t assms(2) show ?thesis
    by (intro exI [of _ ?s]) (simp only: simp_thms)
qed

lemma sample_deck_length: "length sample_deck = 52"
  by (simp add: sample_deck_def)

lemma sample_deck_distinct: "distinct sample_deck"
  by (simp add: sample_deck_def)

theorem init_setup_shape_witness:
  "length sample_deck = 52 \<and> distinct sample_deck \<and>
   (\<exists>s. init sample_deck = Inr s \<and>
        tableau s ! 0 = [\<lparr>suit = Clubs, rank = Some 1\<rparr>, \<lparr>suit = Clubs, rank = Some 2\<rparr>,
                         \<lparr>suit = Clubs, rank = Some 3\<rparr>, \<lparr>suit = Clubs, rank = Some 4\<rparr>,
                         \<lparr>suit = Clubs, rank = Some 5\<rparr>] \<and>
        waste s = [\<lparr>suit = Hearts, rank = Some 10\<rparr>] \<and>
        length (stock s) = 16 \<and> deck s = [])"
proof -
  from init_setup_shape [OF sample_deck_length sample_deck_distinct]
  obtain s where s: "init sample_deck = Inr s"
    "\<forall>i < 7. tableau s ! i = take 5 (drop (i * 5) sample_deck) \<and>
                    length (tableau s ! i) = 5 \<and>
                    last (tableau s ! i) = sample_deck ! (i * 5 + 4)"
    "waste s = [sample_deck ! 35]" "length (stock s) = 16" "deck s = []"
    by blast
  from s(2) have "tableau s ! 0 = take 5 (drop (0 * 5) sample_deck)"
    by simp
  then have a: "tableau s ! 0 = [\<lparr>suit = Clubs, rank = Some 1\<rparr>, \<lparr>suit = Clubs, rank = Some 2\<rparr>,
                         \<lparr>suit = Clubs, rank = Some 3\<rparr>, \<lparr>suit = Clubs, rank = Some 4\<rparr>,
                         \<lparr>suit = Clubs, rank = Some 5\<rparr>]"
    by (simp add: sample_deck_def)
  have b: "waste s = [\<lparr>suit = Hearts, rank = Some 10\<rparr>]"
    using s(3) by (simp add: sample_deck_def)
  from s(1) a b s(4,5) sample_deck_length sample_deck_distinct show ?thesis
    by blast
qed

subsection \<open>Conservation\<close>

lemma py_index_bound: "py_index xs i = Inr j \<Longrightarrow> j < length xs"
  by (auto simp: py_index_def Let_def split: if_splits)

lemma sum_length_pop:
  assumes "j < length xss" and "xss ! j \<noteq> []"
  shows "Suc (sum_list (map length (xss[j := butlast (xss ! j)]))) = sum_list (map length xss)"
proof -
  let ?ls = "map length xss"
  have j: "j < length ?ls" using assms(1) by simp
  have p: "0 < ?ls ! j" using assms by simp
  have "?ls ! j \<in> set ?ls" using j by (rule nth_mem)
  then have le: "?ls ! j \<le> sum_list ?ls" by (simp add: member_le_sum_list)
  have "map length (xss[j := butlast (xss ! j)]) = ?ls[j := ?ls ! j - 1]"
    using assms(1) by (simp add: map_update)
  then have "sum_list (map length (xss[j := butlast (xss ! j)])) =
             sum_list ?ls + (?ls ! j - 1) - ?ls ! j"
    using j by (simp add: sum_list_update del: length_map)
  with p le show ?thesis by arith
qed

lemma move_card_total:
  assumes "move_card col s = Inr (u, s')"
  shows "total_cards s' = total_cards s"
proof (cases "py_index (tableau s) col")
  case (Inl e)
  with assms show ?thesis by (simp add: move_card_def)
next
  case (Inr j)
  note b = py_index_bound [OF Inr]
  show ?thesis
  proof (cases "tableau s ! j = []")
    case True
    with assms show ?thesis by (auto simp: move_card_at [OF Inr])
  next
    case False
    from sum_length_pop [OF b False] assms False show ?thesis
      by (auto simp: move_card_at [OF Inr] total_cards_def)
  qed
qed

lemma deal_from_stock_total:
  assumes "deal_from_stock s = Inr (u, s')"
  shows "total_cards s' = total_cards s"
proof (cases "stock s = []")
  case True
  with assms show ?thesis by (auto simp: deal_from_stock_eq)
next
  case False
  then have "0 < length (stock s)" by simp
  with assms False show ?thesis
    by (auto simp: deal_from_stock_eq total_cards_def)
qed

lemma init_total:
  assumes "init d = Inr s" and "columns * cards_in_column < length d"
  shows "total_cards s = length d"
proof -
  have "length (concat (tableau s) @ waste s @ stock s) = length d"
    by (simp only: init_conserves [OF assms])
  then show ?thesis
    by (simp add: total_cards_def length_concat)
qed

lemma reachable_total:
  assumes "reachable d s" and "columns * cards_in_column < length d"
  shows "total_cards s = length d"
  using assms(1)
proof (induction rule: reachable.induct)
  case (after_init s)
  then show ?case by (rule init_total [OF _ assms(2)])
next
  case (after_move s col u s')
  then show ?case by (simp add: move_card_total)
next
  case (after_deal s u s')
  then show ?case by (simp add: deal_from_stock_total)
qed

text \<open>
  C2. In every state reachable from the setup of a 52-card deck, the tableau columns, the
  stock and the waste hold 52 cards together; and from any state a returning call of
  \<^verbatim>\<open>move_card\<close> or \<^verbatim>\<open>deal_from_stock\<close> leaves that total unchanged.
\<close>

theorem conservation_of_cards:
  "(length d = 52 \<and> reachable d s \<longrightarrow> total_cards s = 52) \<and>
   (\<forall>col u s'. move_card col s = Inr (u, s') \<longrightarrow> total_cards s' = total_cards s) \<and>
   (\<forall>u s'. deal_from_stock s = Inr (u, s') \<longrightarrow> total_cards s' = total_cards s)"
proof (intro conjI allI impI)
  assume a: "length d = 52 \<and> reachable d s"
  then have "columns * cards_in_column < length d" by simp
  from reachable_total [OF _ this] a show "total_cards s = 52" by simp
next
  fix col u s'
  assume "move_card col s = Inr (u, s')"
  then show "total_cards s' = total_cards s" by (rule move_card_total)
next
  fix u s'
  assume "deal_from_stock s = Inr (u, s')"
  then show "total_cards s' = total_cards s" by (rule deal_from_stock_total)
qed

lemma sample_deck_playable:
  "\<exists>s0 s1 s2. init sample_deck = Inr s0 \<and> move_card 0 s0 = Inr ((), s1) \<and>
      deal_from_stock s1 = Inr ((), s2) \<and> reachable sample_deck s2 \<and>
      length (waste s2) = 3 \<and> length (stock s2) = 15"
proof -
  have "columns * cards_in_column < length sample_deck"
    by (simp add: sample_deck_length)
  from init_eq [OF this]
  obtain s0 where s0: "init sample_deck = Inr s0" "length (tableau s0) = 7"
    "length (tableau s0 ! 0) = 5" "length (waste s0) = 1" "length (stock s0) = 16"
    by (simp add: columns_def cards_in_column_def sample_deck_length)
  have i: "py_index (tableau s0) 0 = Inr 0"
    using s0(2) by (simp add: py_index_def)
  have n: "tableau s0 ! 0 \<noteq> []" "stock s0 \<noteq> []"
    using s0(3,5) by auto
  define s1 where "s1 = s0\<lparr>tableau := (tableau s0)[0 := butlast (tableau s0 ! 0)],
                     waste := waste s0 @ [last (tableau s0 ! 0)]\<rparr>"
  define s2 where "s2 = s1\<lparr>stock := butlast (stock s1), waste := waste s1 @ [last (stock s1)]\<rparr>"
  have m: "move_card 0 s0 = Inr ((), s1)"
    using n(1) by (simp add: move_card_at [OF i] s1_def)
  have k: "stock s1 \<noteq> []"
    using n(2) by (simp add: s1_def)
  have e: "deal_from_stock s1 = Inr ((), s2)"
    using k by (simp add: deal_from_stock_eq s2_def)
  have r: "reachable sample_deck s2"
    using s0(1) m e by (blast intro: reachable.intros)
  have "length (waste s2) = 3" "length (stock s2) = 15"
    using s0(4,5) by (simp_all add: s2_def s1_def)
  with s0(1) m e r show ?thesis by blast
qed

theorem conservation_of_cards_witness:
  "length sample_deck = 52 \<and>
   (\<exists>s. reachable sample_deck s \<and> length (waste s) = 3 \<and> length (stock s) = 15 \<and>
        total_cards s = 52)"
proof -
  from sample_deck_playable obtain s where
    s: "reachable sample_deck s" "length (waste s) = 3" "length (stock s) = 15"
    by blast
  from conservation_of_cards [of sample_deck s] sample_deck_length s(1)
  have "total_cards s = 52" by blast
  with s sample_deck_length show ?thesis by blast
qed


subsection \<open>The waste pile is never empty\<close>

lemma init_waste: "init d = Inr s \<Longrightarrow> length (waste s) = 1"
  by (auto simp: init_def split: sum.splits prod.splits)

lemma move_card_waste:
  assumes "move_card col s = Inr (u, s')"
  shows "\<exists>cs. waste s' = waste s @ cs"
proof (cases "py_index (tableau s) col")
  case (Inl e)
  with assms show ?thesis by (simp add: move_card_def)
next
  case (Inr j)
  with assms show ?thesis by (auto simp: move_card_at [OF Inr] split: if_splits)
qed

lemma deal_from_stock_waste:
  "deal_from_stock s = Inr (u, s') \<Longrightarrow> \<exists>cs. waste s' = waste s @ cs"
  by (auto simp: deal_from_stock_eq split: if_splits)

lemma reachable_waste: "reachable d s \<Longrightarrow> waste s \<noteq> []"
proof (induction rule: reachable.induct)
  case (after_init s)
  then have "length (waste s) = 1" by (rule init_waste)
  then show ?case by auto
next
  case (after_move s col u s')
  from move_card_waste [OF after_move.hyps(2)] after_move.IH show ?case by auto
next
  case (after_deal s u s')
  from deal_from_stock_waste [OF after_deal.hyps(2)] after_deal.IH show ?case by auto
qed

text \<open>
  C8. The constructor leaves exactly one card on the waste, and \<^verbatim>\<open>move_card\<close> and
  \<^verbatim>\<open>deal_from_stock\<close> only append to it. So in every reachable state the waste holds at
  least one card, and there \<^verbatim>\<open>has_won\<close>, \<^verbatim>\<open>has_lost\<close>, \<^verbatim>\<open>last_cards\<close> and
  \<^verbatim>\<open>can_move\<close> (for every card) return a value and the unchanged state; the read
  \<^verbatim>\<open>self.waste[-1]\<close> finds the last position of the waste.
\<close>

theorem waste_never_empty_queries_total:
  "(\<forall>s0. init d = Inr s0 \<longrightarrow> length (waste s0) = 1) \<and>
   (\<forall>col u s'. move_card col s = Inr (u, s') \<longrightarrow> (\<exists>cs. waste s' = waste s @ cs)) \<and>
   (\<forall>u s'. deal_from_stock s = Inr (u, s') \<longrightarrow> (\<exists>cs. waste s' = waste s @ cs)) \<and>
   (reachable d s \<longrightarrow>
      1 \<le> length (waste s) \<and>
      (\<exists>b. has_won s = Inr (b, s)) \<and>
      (\<exists>b. has_lost s = Inr (b, s)) \<and>
      (\<exists>cs. last_cards s = Inr (cs, s)) \<and>
      (\<forall>c. \<exists>b. can_move c s = Inr (b, s)) \<and>
      py_index (waste s) (- 1) = Inr (length (waste s) - 1))"
proof (intro conjI allI impI)
  fix s0 assume "init d = Inr s0"
  then show "length (waste s0) = 1" by (rule init_waste)
next
  fix col u s' assume "move_card col s = Inr (u, s')"
  then show "\<exists>cs. waste s' = waste s @ cs" by (rule move_card_waste)
next
  fix u s' assume "deal_from_stock s = Inr (u, s')"
  then show "\<exists>cs. waste s' = waste s @ cs" by (rule deal_from_stock_waste)
next
  assume "reachable d s"
  then have w: "waste s \<noteq> []" by (rule reachable_waste)
  then show "1 \<le> length (waste s)"
    by (cases "waste s") simp_all
  show "\<exists>b. has_won s = Inr (b, s)"
    by (simp add: has_won_def)
  show "\<exists>b. has_lost s = Inr (b, s)"
    by (auto simp: has_lost_def last_cards_eq movable_cards_eq [OF w])
  show "\<exists>cs. last_cards s = Inr (cs, s)"
    by (simp add: last_cards_eq)
  show "\<exists>b. can_move c s = Inr (b, s)" for c
    by (simp add: can_move_eq [OF w])
  show "py_index (waste s) (- 1) = Inr (length (waste s) - 1)"
    by (rule py_index_last [OF w])
qed

theorem waste_never_empty_queries_total_witness:
  "\<exists>s. reachable sample_deck s \<and> length (waste s) = 3 \<and>
       (\<exists>b. has_lost s = Inr (b, s)) \<and>
       (\<exists>b. can_move \<lparr>suit = Clubs, rank = Some 4\<rparr> s = Inr (b, s))"
proof -
  from sample_deck_playable obtain s where
    s: "reachable sample_deck s" "length (waste s) = 3"
    by blast
  from waste_never_empty_queries_total [of sample_deck s] s(1)
  have "(\<exists>b. has_lost s = Inr (b, s)) \<and> (\<forall>c. \<exists>b. can_move c s = Inr (b, s))"
    by blast
  with s show ?thesis by blast
qed

end
